theory Spec2Isabelle
  imports Complex_Main "HOL-Library.Multiset"
begin

section \<open>Data model of \<open>src/main.cpp\<close>\<close>

text \<open>
  The C++ \<open>double\<close> is modelled as \<^typ>\<open>real\<close>: every time, cost and duration is a
  finite real number and arithmetic is exact. The one place where the source relies on a
  non-finite double (the \<open>infinity()\<close> entries of the \<open>dp\<close> table) has its own datatype
  below, and the one division that can be by zero returns an \<open>option\<close>.

  The private fields of the classes are named after their getters, since \<open>end\<close> is a
  keyword of the theory language.
\<close>

record CoverageInterval =
  getStart :: real
  getEnd :: real

definition getDuration :: "CoverageInterval \<Rightarrow> real" where
  "getDuration iv = getEnd iv - getStart iv"

definition overlaps :: "CoverageInterval \<Rightarrow> CoverageInterval \<Rightarrow> bool" where
  "overlaps iv other \<longleftrightarrow> \<not> (getEnd iv \<le> getStart other \<or> getStart iv \<ge> getEnd other)"

record Satellite =
  getName :: string
  getInterval :: CoverageInterval
  getCost :: real
  getRegion :: string

text \<open>The constructor \<open>Satellite(n, i, c = 1.0, r = "Global")\<close>: an omitted argument is \<open>None\<close>.\<close>

definition Satellite_ctor ::
  "string \<Rightarrow> CoverageInterval \<Rightarrow> real option \<Rightarrow> string option \<Rightarrow> Satellite" where
  "Satellite_ctor n iv c r =
     \<lparr>getName = n, getInterval = iv,
      getCost = (case c of None \<Rightarrow> 1 | Some c' \<Rightarrow> c'),
      getRegion = (case r of None \<Rightarrow> ''Global'' | Some r' \<Rightarrow> r')\<rparr>"

text \<open>
  \<open>coveragePercentage\<close> is \<open>None\<close> when the source divides by a zero \<open>totalDuration\<close>
  (the double is then an infinity or a NaN, not a number).
\<close>

record CoverageSummary =
  totalDuration :: real
  coveredDuration :: real
  coveragePercentage :: "real option"
  gaps :: "CoverageInterval list"
  satellitesUsed :: int
  totalCost :: real

record SatelliteCoverageOptimizer =
  satellites :: "Satellite list"
  targetStart :: real
  targetEnd :: real

text \<open>The constructor \<open>SatelliteCoverageOptimizer(start = 0, end = 24)\<close>.\<close>

definition Optimizer_ctor :: "real option \<Rightarrow> real option \<Rightarrow> SatelliteCoverageOptimizer" where
  "Optimizer_ctor s e =
     \<lparr>satellites = [],
      targetStart = (case s of None \<Rightarrow> 0 | Some s' \<Rightarrow> s'),
      targetEnd = (case e of None \<Rightarrow> 24 | Some e' \<Rightarrow> e')\<rparr>"

text \<open>
  \<open>addSatellite(name, start, end, cost = 1.0, region = "Global")\<close> mutates the object: the
  model returns the updated object.
\<close>

definition addSatellite ::
  "SatelliteCoverageOptimizer \<Rightarrow> string \<Rightarrow> real \<Rightarrow> real \<Rightarrow> real option \<Rightarrow> string option
     \<Rightarrow> SatelliteCoverageOptimizer" where
  "addSatellite this name s e c r =
     (let interval = \<lparr>getStart = s, getEnd = e\<rparr>;
          cost = (case c of None \<Rightarrow> 1 | Some c' \<Rightarrow> c');
          region = (case r of None \<Rightarrow> ''Global'' | Some r' \<Rightarrow> r')
      in this\<lparr>satellites := satellites this @ [Satellite_ctor name interval (Some cost) (Some region)]\<rparr>)"

definition filterByRegion :: "SatelliteCoverageOptimizer \<Rightarrow> string \<Rightarrow> Satellite list" where
  "filterByRegion this region =
     (if region = ''All'' then satellites this
      else filter (\<lambda>sat. getRegion sat = region) (satellites this))"

text \<open>
  \<open>std::sort(filtered.begin(), filtered.end())\<close> with \<open>Satellite::operator<\<close>, which compares
  the interval starts. \<open>std::sort\<close> leaves the order of satellites with equal starts
  unspecified; the model takes the stable insertion sort. The general results below about
  the two algorithms are proved for their loops over an arbitrary list, so they hold for
  whichever order \<open>std::sort\<close> produces.
\<close>

definition std_sort :: "Satellite list \<Rightarrow> Satellite list" where
  "std_sort xs = sort_key (\<lambda>sat. getStart (getInterval sat)) xs"

section \<open>Greedy algorithm: \<open>findMinimumSatellites\<close>\<close>

text \<open>
  The inner \<open>while\<close> loop (lines 111 to 115): push \<open>filtered[i]\<close> to \<open>candidates\<close> and
  advance \<open>i\<close> while \<open>filtered[i]\<close> starts at or before \<open>currentEnd\<close>.
\<close>

function collectCandidates ::
  "Satellite list \<Rightarrow> real \<Rightarrow> Satellite list \<Rightarrow> nat \<Rightarrow> Satellite list \<times> nat" where
  "collectCandidates filtered currentEnd candidates i =
     (if i < length filtered \<and> getStart (getInterval (filtered ! i)) \<le> currentEnd
      then collectCandidates filtered currentEnd (candidates @ [filtered ! i]) (Suc i)
      else (candidates, i))"
  by pat_completeness auto
termination
  by (relation "measure (\<lambda>(filtered, currentEnd, candidates, i). length filtered - i)") auto

declare collectCandidates.simps [simp del]

text \<open>
  \<open>std::max_element\<close> with the comparator on interval ends, on the non-empty range
  \<open>c # cs\<close>: the running maximum is replaced only by a strictly larger end, so the first
  of several maximal candidates is returned.
\<close>

fun max_element_from :: "Satellite \<Rightarrow> Satellite list \<Rightarrow> Satellite" where
  "max_element_from largest [] = largest"
| "max_element_from largest (s # ss) =
     max_element_from
       (if getEnd (getInterval largest) < getEnd (getInterval s) then s else largest) ss"

text \<open>
  The state of the outer loop is \<open>(selected, gaps, currentEnd, i)\<close>. One round of the body
  (lines 108 to 145) returns the new state and whether it left the loop by \<open>break\<close>.
\<close>

type_synonym greedy_state = "Satellite list \<times> CoverageInterval list \<times> real \<times> nat"

fun greedy_body :: "Satellite list \<Rightarrow> real \<Rightarrow> greedy_state \<Rightarrow> greedy_state \<times> bool" where
  "greedy_body filtered tEnd (sel, gs, currentEnd, i) =
     (case collectCandidates filtered currentEnd [] i of
        (candidates, i1) \<Rightarrow>
          (case candidates of
             [] \<Rightarrow>
               (let gapStart = currentEnd;
                    gapEnd = (if i1 < length filtered
                              then min (getStart (getInterval (filtered ! i1))) tEnd
                              else tEnd);
                    gs1 = (if gapStart < gapEnd
                           then gs @ [\<lparr>getStart = gapStart, getEnd = gapEnd\<rparr>]
                           else gs)
                in if i1 < length filtered
                   then ((sel @ [filtered ! i1], gs1,
                          getEnd (getInterval (filtered ! i1)), Suc i1), False)
                   else ((sel, gs1, currentEnd, i1), True))
           | c # cs \<Rightarrow>
               (let bestCandidate = max_element_from c cs
                in ((sel @ [bestCandidate], gs,
                     getEnd (getInterval bestCandidate), i1), False))))"

declare greedy_body.simps [simp del]

lemma collectCandidates_index:
  "collectCandidates filtered currentEnd candidates i = (cands, i1) \<Longrightarrow>
     i \<le> i1 \<and> length cands = length candidates + (i1 - i)"
proof (induction filtered currentEnd candidates i rule: collectCandidates.induct)
  case (1 filtered currentEnd candidates i)
  show ?case
  proof (cases "i < length filtered \<and> getStart (getInterval (filtered ! i)) \<le> currentEnd")
    case True
    with "1.prems" have
      "collectCandidates filtered currentEnd (candidates @ [filtered ! i]) (Suc i) = (cands, i1)"
      by (simp add: collectCandidates.simps [of filtered currentEnd candidates i])
    from "1.IH" [OF True this] show ?thesis by auto
  next
    case False
    with "1.prems" show ?thesis
      by (simp add: collectCandidates.simps [of filtered currentEnd candidates i])
  qed
qed

lemma greedy_body_progress:
  assumes "greedy_body filtered tEnd (sel, gs, currentEnd, i) = ((sel', gs', currentEnd', i'), False)"
    and "i < length filtered"
  shows "length filtered - i' < length filtered - i"
proof -
  obtain cands i1 where c: "collectCandidates filtered currentEnd [] i = (cands, i1)"
    by (cases "collectCandidates filtered currentEnd [] i")
  from collectCandidates_index [OF c] have le: "i \<le> i1" and len: "length cands = i1 - i"
    by simp_all
  show ?thesis
  proof (cases cands)
    case Nil
    with assms c have "i' = Suc i1"
      by (auto simp: greedy_body.simps Let_def split: if_splits)
    with le assms(2) show ?thesis by simp
  next
    case (Cons c' cs)
    with assms c have i': "i' = i1"
      by (auto simp: greedy_body.simps Let_def)
    from Cons len have "i < i1" by simp
    with i' assms(2) show ?thesis by simp
  qed
qed

text \<open>The outer loop \<open>while (currentEnd < targetEnd && i < filtered.size())\<close>.\<close>

function greedy_loop :: "Satellite list \<Rightarrow> real \<Rightarrow> greedy_state \<Rightarrow> greedy_state" where
  "greedy_loop filtered tEnd (sel, gs, currentEnd, i) =
     (if currentEnd < tEnd \<and> i < length filtered
      then (case greedy_body filtered tEnd (sel, gs, currentEnd, i) of
              (st, brk) \<Rightarrow> if brk then st else greedy_loop filtered tEnd st)
      else (sel, gs, currentEnd, i))"
  by pat_completeness auto
termination
  apply (relation "measure (\<lambda>(filtered, tEnd, sel, gs, currentEnd, i). length filtered - i)")
   apply simp
  subgoal for filtered tEnd sel gs currentEnd i st brk
    by (cases st) (auto dest: greedy_body_progress [OF sym])
  done

declare greedy_loop.simps [simp del]

text \<open>
  The member functions are not \<open>const\<close>: each is modelled as a function from the object to
  its result and the object after the call.
\<close>

definition findMinimumSatellites ::
  "SatelliteCoverageOptimizer \<Rightarrow> string
     \<Rightarrow> (Satellite list \<times> CoverageInterval list) \<times> SatelliteCoverageOptimizer" where
  "findMinimumSatellites this region =
     (let filtered = std_sort (filterByRegion this region)
      in case greedy_loop filtered (targetEnd this) ([], [], targetStart this, 0) of
           (sel, gs, currentEnd, i) \<Rightarrow>
             (let gs1 = (if currentEnd < targetEnd this
                         then gs @ [\<lparr>getStart = currentEnd, getEnd = targetEnd this\<rparr>]
                         else gs)
              in ((sel, gs1), this)))"

text \<open>
  The \<open>for\<close> loop of \<open>getCoverageSummary\<close> (lines 225 to 230) over the selection, on the
  pair \<open>(summary.totalCost, coveredTime)\<close>.
\<close>

fun summary_loop :: "real \<Rightarrow> real \<Rightarrow> Satellite list \<Rightarrow> real \<times> real \<Rightarrow> real \<times> real" where
  "summary_loop tStart tEnd [] (tc, coveredTime) = (tc, coveredTime)"
| "summary_loop tStart tEnd (sat # sats) (tc, coveredTime) =
     (let s = max tStart (getStart (getInterval sat));
          e = min tEnd (getEnd (getInterval sat))
      in summary_loop tStart tEnd sats (tc + getCost sat, coveredTime + (e - s)))"

definition getCoverageSummary ::
  "SatelliteCoverageOptimizer \<Rightarrow> string \<Rightarrow> CoverageSummary \<times> SatelliteCoverageOptimizer" where
  "getCoverageSummary this region =
     (case findMinimumSatellites this region of
        ((sel, gs), this1) \<Rightarrow>
          (let total = targetEnd this1 - targetStart this1
           in case summary_loop (targetStart this1) (targetEnd this1) sel (0, 0) of
                (tc, coveredTime) \<Rightarrow>
                  (\<lparr>totalDuration = total,
                    coveredDuration = coveredTime,
                    coveragePercentage =
                      (if total = 0 then None else Some ((coveredTime / total) * 100)),
                    gaps = gs,
                    satellitesUsed = int (length sel),
                    totalCost = tc\<rparr>, this1)))"


section \<open>Dynamic programming: \<open>findMinimumCostCoverage\<close>\<close>

text \<open>
  An entry of the \<open>dp\<close> table is a finite cost or \<open>numeric_limits<double>::infinity()\<close>.
  \<open>dp_add\<close> is the double addition of a finite cost to an entry and \<open>dp_less\<close> the
  comparison \<open><\<close> of two entries.
\<close>

datatype dpval = Finite real | Infinity

fun dp_add :: "dpval \<Rightarrow> real \<Rightarrow> dpval" where
  "dp_add (Finite a) c = Finite (a + c)"
| "dp_add Infinity c = Infinity"

fun dp_less :: "dpval \<Rightarrow> dpval \<Rightarrow> bool" where
  "dp_less (Finite a) (Finite b) \<longleftrightarrow> a < b"
| "dp_less (Finite a) Infinity \<longleftrightarrow> True"
| "dp_less Infinity b \<longleftrightarrow> False"

type_synonym dp_tables = "dpval list \<times> int list"

text \<open>The inner loop \<open>for (int j = i; j < n; j++)\<close> with its \<open>break\<close> (lines 172 to 180).\<close>

function relax_loop ::
  "Satellite list \<Rightarrow> real \<Rightarrow> nat \<Rightarrow> nat \<Rightarrow> dp_tables \<Rightarrow> dp_tables" where
  "relax_loop filtered currentEnd i j (dp, parent) =
     (if j < length filtered
      then (if getStart (getInterval (filtered ! j)) > currentEnd then (dp, parent)
            else (let newCost = dp_add (dp ! i) (getCost (filtered ! j))
                  in if dp_less newCost (dp ! (j + 1))
                     then relax_loop filtered currentEnd i (Suc j)
                            (dp[j + 1 := newCost], parent[j + 1 := int j])
                     else relax_loop filtered currentEnd i (Suc j) (dp, parent)))
      else (dp, parent))"
  by pat_completeness auto
termination
  by (relation "measure (\<lambda>(filtered, currentEnd, i, j, t). length filtered - j)") auto

declare relax_loop.simps [simp del]

text \<open>The outer loop \<open>for (int i = 0; i < n; i++)\<close> (lines 166 to 181).\<close>

function dp_loop :: "Satellite list \<Rightarrow> real \<Rightarrow> nat \<Rightarrow> dp_tables \<Rightarrow> dp_tables" where
  "dp_loop filtered tStart i (dp, parent) =
     (if i < length filtered
      then (if dp ! i = Infinity then dp_loop filtered tStart (Suc i) (dp, parent)
            else (let currentEnd = (if i = 0 then tStart
                                    else getEnd (getInterval (filtered ! nat (parent ! i))))
                  in dp_loop filtered tStart (Suc i)
                       (relax_loop filtered currentEnd i i (dp, parent))))
      else (dp, parent))"
  by pat_completeness auto
termination
  by (relation "measure (\<lambda>(filtered, tStart, i, t). length filtered - i)") auto

declare dp_loop.simps [simp del]

text \<open>The tables after the loops, from their initial values (lines 161 to 181).\<close>

definition dp_run :: "Satellite list \<Rightarrow> real \<Rightarrow> dp_tables" where
  "dp_run filtered tStart =
     (let n = length filtered
      in dp_loop filtered tStart 0
           ((replicate (n + 1) Infinity)[0 := Finite 0], replicate (n + 1) (- 1)))"

text \<open>
  The reconstruction loop \<open>while (idx > 0 && parent[idx] != -1)\<close> (lines 188 to 192). As
  written it need not end on an arbitrary \<open>parent\<close> array, so it is a partial function:
  \<open>None\<close> stands for a walk that never ends.
\<close>

partial_function (option) reconstruct ::
  "Satellite list \<Rightarrow> int list \<Rightarrow> int \<Rightarrow> Satellite list \<Rightarrow> real \<Rightarrow> (Satellite list \<times> real) option"
  where
  "reconstruct filtered parent idx sel tc =
     (if idx > 0 \<and> parent ! nat idx \<noteq> - 1
      then reconstruct filtered parent (parent ! nat idx)
             (sel @ [filtered ! nat (parent ! nat idx)])
             (tc + getCost (filtered ! nat (parent ! nat idx)))
      else Some (sel, tc))"

declare reconstruct.simps [code]

text \<open>The gap loop over the selection (lines 200 to 205), on \<open>(gaps, currentEnd)\<close>.\<close>

fun gap_loop ::
  "Satellite list \<Rightarrow> CoverageInterval list \<times> real \<Rightarrow> CoverageInterval list \<times> real" where
  "gap_loop [] (gs, currentEnd) = (gs, currentEnd)"
| "gap_loop (sat # sats) (gs, currentEnd) =
     gap_loop sats
       (if getStart (getInterval sat) > currentEnd
        then gs @ [\<lparr>getStart = currentEnd, getEnd = getStart (getInterval sat)\<rparr>]
        else gs,
        max currentEnd (getEnd (getInterval sat)))"

text \<open>
  The gap computation of \<open>findMinimumCostCoverage\<close> (lines 196 to 209): the loop from
  \<open>currentEnd = targetStart\<close>, then the trailing gap.
\<close>

definition find_gaps :: "real \<Rightarrow> real \<Rightarrow> Satellite list \<Rightarrow> CoverageInterval list" where
  "find_gaps tStart tEnd selected =
     (case gap_loop selected ([], tStart) of
        (gs, currentEnd) \<Rightarrow>
          (if currentEnd < tEnd
           then gs @ [\<lparr>getStart = currentEnd, getEnd = tEnd\<rparr>]
           else gs))"

definition findMinimumCostCoverage ::
  "SatelliteCoverageOptimizer \<Rightarrow> string
     \<Rightarrow> ((Satellite list \<times> real \<times> CoverageInterval list) \<times> SatelliteCoverageOptimizer) option"
  where
  "findMinimumCostCoverage this region =
     (let filtered = std_sort (filterByRegion this region);
          n = length filtered
      in case dp_run filtered (targetStart this) of
           (dp, parent) \<Rightarrow>
             (case reconstruct filtered parent (int n) [] 0 of
                None \<Rightarrow> None
              | Some (sel, tc) \<Rightarrow>
                  (let selected = rev sel;
                       gs = find_gaps (targetStart this) (targetEnd this) selected
                   in Some ((selected, tc, gs), this))))"

section \<open>Invariants of the tables\<close>

text \<open>Every entry of \<open>parent\<close> is \<open>-1\<close> (undefined) or the index just before its own.\<close>

definition parent_ok :: "int list \<Rightarrow> bool" where
  "parent_ok parent \<longleftrightarrow>
     (\<forall>k < length parent. parent ! k = - 1 \<or> (0 < k \<and> parent ! k = int k - 1))"

text \<open>
  The index at which the walk from \<open>m\<close> stops when every defined \<open>parent[k]\<close> is \<open>k - 1\<close>:
  the largest \<open>k \<le> m\<close> that is \<open>0\<close> or has an undefined parent.
\<close>

fun walk_stop :: "int list \<Rightarrow> nat \<Rightarrow> nat" where
  "walk_stop parent 0 = 0"
| "walk_stop parent (Suc m) = (if parent ! Suc m = - 1 then Suc m else walk_stop parent m)"

text \<open>
  Satellite \<open>k\<close> of the sorted list is reachable: it starts at or before the start of the
  window, or at or before the end of an earlier satellite of the list.
\<close>

definition reach :: "Satellite list \<Rightarrow> real \<Rightarrow> nat \<Rightarrow> bool" where
  "reach filtered tStart k \<longleftrightarrow>
     getStart (getInterval (filtered ! k)) \<le> tStart \<or>
     (\<exists>i < k. getStart (getInterval (filtered ! k)) \<le> getEnd (getInterval (filtered ! i)))"

text \<open>
  The invariant of the two loops of \<open>findMinimumCostCoverage\<close>: the tables keep their
  length, \<open>dp[0]\<close> is finite, \<open>parent[k]\<close> is defined exactly where \<open>dp[k]\<close> is finite, the
  finite entries of \<open>dp\<close> form an initial segment, and a defined \<open>parent[k + 1]\<close> means that
  satellite \<open>k\<close> is reachable.
\<close>

definition dp_inv :: "Satellite list \<Rightarrow> real \<Rightarrow> dp_tables \<Rightarrow> bool" where
  "dp_inv filtered tStart t \<longleftrightarrow>
     (case t of (dp, parent) \<Rightarrow>
        length dp = length filtered + 1 \<and> length parent = length filtered + 1 \<and>
        parent_ok parent \<and> dp ! 0 \<noteq> Infinity \<and>
        (\<forall>k < length filtered. parent ! Suc k \<noteq> - 1 \<longleftrightarrow> dp ! Suc k \<noteq> Infinity) \<and>
        (\<forall>k < length filtered. dp ! Suc k \<noteq> Infinity \<longrightarrow> dp ! k \<noteq> Infinity) \<and>
        (\<forall>k < length filtered. parent ! Suc k \<noteq> - 1 \<longrightarrow> reach filtered tStart k))"

text \<open>
  A list of satellites is chained from \<open>currentEnd\<close> when the gap loop meets no gap in it:
  each satellite starts at or before the running maximum of \<open>currentEnd\<close> and the earlier
  ends; \<open>frontier\<close> is that running maximum after the whole list.
\<close>

fun chained :: "real \<Rightarrow> Satellite list \<Rightarrow> bool" where
  "chained currentEnd [] \<longleftrightarrow> True"
| "chained currentEnd (sat # sats) \<longleftrightarrow>
     getStart (getInterval sat) \<le> currentEnd \<and>
     chained (max currentEnd (getEnd (getInterval sat))) sats"

fun frontier :: "real \<Rightarrow> Satellite list \<Rightarrow> real" where
  "frontier currentEnd [] = currentEnd"
| "frontier currentEnd (sat # sats) = frontier (max currentEnd (getEnd (getInterval sat))) sats"

section \<open>The registry of \<open>main\<close>\<close>

text \<open>
  \<open>main\<close> builds its optimizer by \<open>SatelliteCoverageOptimizer optimizer(0, 24)\<close> and ten
  calls of \<open>addSatellite\<close> with all five arguments (lines 322 to 335).
\<close>

definition add_all ::
  "SatelliteCoverageOptimizer \<Rightarrow> (string \<times> real \<times> real \<times> real \<times> string) list
     \<Rightarrow> SatelliteCoverageOptimizer" where
  "add_all = foldl (\<lambda>opt (n, s, e, c, r). addSatellite opt n s e (Some c) (Some r))"

definition main_optimizer :: SatelliteCoverageOptimizer where
  "main_optimizer =
     add_all (Optimizer_ctor (Some 0) (Some 24))
       [(''Sat-Alpha'', 0, 6, 1200, ''Asia''),
        (''Sat-Beta'', 4, 10, 1500, ''Europe''),
        (''Sat-Gamma'', 8, 14, 1800, ''Asia''),
        (''Sat-Delta'', 12, 18, 1300, ''Americas''),
        (''Sat-Epsilon'', 16, 22, 1600, ''Europe''),
        (''Sat-Zeta'', 20, 24, 1100, ''Global''),
        (''Sat-Eta'', 2, 8, 900, ''Asia''),
        (''Sat-Theta'', 10, 16, 1400, ''Europe''),
        (''Sat-Iota'', 14, 20, 1700, ''Americas''),
        (''Sat-Kappa'', 18, 23, 1000, ''Global'')]"

text \<open>The three satellites of region \<open>Asia\<close> in that registry.\<close>

definition Sat_Alpha :: Satellite where
  "Sat_Alpha = \<lparr>getName = ''Sat-Alpha'', getInterval = \<lparr>getStart = 0, getEnd = 6\<rparr>,
                 getCost = 1200, getRegion = ''Asia''\<rparr>"

definition Sat_Eta :: Satellite where
  "Sat_Eta = \<lparr>getName = ''Sat-Eta'', getInterval = \<lparr>getStart = 2, getEnd = 8\<rparr>,
               getCost = 900, getRegion = ''Asia''\<rparr>"

definition Sat_Gamma :: Satellite where
  "Sat_Gamma = \<lparr>getName = ''Sat-Gamma'', getInterval = \<lparr>getStart = 8, getEnd = 14\<rparr>,
                 getCost = 1800, getRegion = ''Asia''\<rparr>"

text \<open>Further registries, each built as \<open>main\<close> builds its own.\<close>

definition europe_only :: SatelliteCoverageOptimizer where
  "europe_only =
     addSatellite (Optimizer_ctor (Some 5) (Some 5)) ''Sat-Beta'' 4 10 (Some 1500) (Some ''Europe'')"

definition prefix_only :: SatelliteCoverageOptimizer where
  "prefix_only =
     add_all (Optimizer_ctor None None)
       [(''Sat-A'', 0, 5, 100, ''Global''), (''Sat-B'', 10, 15, 200, ''Global'')]"

definition beyond_window :: SatelliteCoverageOptimizer where
  "beyond_window =
     add_all (Optimizer_ctor None None)
       [(''Sat-A'', 0, 5, 1, ''Global''), (''Sat-B'', 30, 40, 1, ''Global'')]"

definition retreating :: SatelliteCoverageOptimizer where
  "retreating =
     add_all (Optimizer_ctor None None)
       [(''Sat-A'', 0, 10, 1, ''Global''), (''Sat-B'', 1, 3, 1, ''Global''),
        (''Sat-C'', 2, 4, 1, ''Global'')]"

section \<open>Properties of the parent table and of the reconstruction\<close>

lemma parent_ok_update:
  assumes "parent_ok parent"
  shows "parent_ok (parent[Suc j := int j])"
  unfolding parent_ok_def
proof (intro allI impI)
  fix k
  assume k: "k < length (parent[Suc j := int j])"
  show "parent[Suc j := int j] ! k = - 1 \<or> (0 < k \<and> parent[Suc j := int j] ! k = int k - 1)"
  proof (cases "k = Suc j")
    case True
    with k show ?thesis by simp
  next
    case False
    with k assms show ?thesis by (simp add: parent_ok_def)
  qed
qed

lemma parent_ok_replicate: "parent_ok (replicate m (- 1))"
  by (simp add: parent_ok_def)

lemma relax_loop_parent_ok:
  "parent_ok (snd t) \<Longrightarrow> parent_ok (snd (relax_loop filtered currentEnd i j t))"
proof (induction filtered currentEnd i j t rule: relax_loop.induct)
  case (1 filtered currentEnd i j dp parent)
  from "1.prems" have upd: "parent_ok (parent[Suc j := int j])"
    by (simp add: parent_ok_update)
  show ?case
    using 1 upd by (subst relax_loop.simps) (auto simp: Let_def)
qed

lemma relax_loop_length:
  "length (snd (relax_loop filtered currentEnd i j t)) = length (snd t)"
proof (induction filtered currentEnd i j t rule: relax_loop.induct)
  case (1 filtered currentEnd i j dp parent)
  then show ?case
    by (subst relax_loop.simps) (auto simp: Let_def)
qed

lemma dp_loop_parent_ok:
  "parent_ok (snd t) \<Longrightarrow> parent_ok (snd (dp_loop filtered tStart i t))"
proof (induction filtered tStart i t rule: dp_loop.induct)
  case (1 filtered tStart i dp parent)
  show ?case
    using 1 by (subst dp_loop.simps) (auto simp: Let_def relax_loop_parent_ok)
qed

lemma dp_loop_length:
  "length (snd (dp_loop filtered tStart i t)) = length (snd t)"
proof (induction filtered tStart i t rule: dp_loop.induct)
  case (1 filtered tStart i dp parent)
  then show ?case
    by (subst dp_loop.simps) (auto simp: Let_def relax_loop_length)
qed

lemma dp_run_parent_ok: "parent_ok (snd (dp_run filtered tStart))"
  unfolding dp_run_def Let_def
  by (rule dp_loop_parent_ok) (simp only: snd_conv parent_ok_replicate)

lemma dp_run_length: "length (snd (dp_run filtered tStart)) = length filtered + 1"
  unfolding dp_run_def Let_def by (simp add: dp_loop_length)

lemma walk_stop_le: "walk_stop parent m \<le> m"
  by (induction m) auto

lemma reconstruct_0: "reconstruct filtered parent 0 sel tc = Some (sel, tc)"
  by (subst reconstruct.simps) simp

lemma reconstruct_Suc:
  "reconstruct filtered parent (int (Suc m)) sel tc =
     (if parent ! Suc m \<noteq> - 1
      then reconstruct filtered parent (parent ! Suc m)
             (sel @ [filtered ! nat (parent ! Suc m)])
             (tc + getCost (filtered ! nat (parent ! Suc m)))
      else Some (sel, tc))"
  by (subst reconstruct.simps, simp only: nat_int) simp

lemma reconstruct_walk:
  assumes "parent_ok parent" and "m < length parent"
  shows "reconstruct filtered parent (int m) sel tc =
           Some (sel @ rev (map ((!) filtered) [walk_stop parent m ..< m]),
                 tc + sum_list (map (\<lambda>k. getCost (filtered ! k)) [walk_stop parent m ..< m]))"
  using assms(2)
proof (induction m arbitrary: sel tc)
  case 0
  show ?case using reconstruct_0 by simp
next
  case (Suc m)
  show ?case
  proof (cases "parent ! Suc m = - 1")
    case True
    then show ?thesis by (simp only: reconstruct_Suc) simp
  next
    case False
    with assms(1) Suc.prems have p: "parent ! Suc m = int m"
      by (auto simp: parent_ok_def)
    from Suc.prems have "m < length parent" by simp
    note IH = Suc.IH [OF this]
    have le: "walk_stop parent m \<le> m" by (rule walk_stop_le)
    show ?thesis
      using False p le by (simp only: reconstruct_Suc) (simp add: IH)
  qed
qed

lemma greedy_loop_Nil: "greedy_loop [] tEnd st = st"
  by (cases st) (simp add: greedy_loop.simps)

lemma std_sort_Nil: "std_sort [] = []"
  by (simp add: std_sort_def)

lemma map_nth_drop: "m \<le> length xs \<Longrightarrow> map ((!) xs) [m ..< length xs] = drop m xs"
  by (rule nth_equalityI) simp_all

lemma sum_cost_drop:
  "m \<le> length xs \<Longrightarrow>
     sum_list (map (\<lambda>k. getCost (xs ! k)) [m ..< length xs]) = sum_list (map getCost (drop m xs))"
proof -
  assume m: "m \<le> length xs"
  have "map (\<lambda>k. getCost (xs ! k)) [m ..< length xs] = map getCost (map ((!) xs) [m ..< length xs])"
    by simp
  with m show ?thesis by (simp only: map_nth_drop)
qed

lemma findMinimumCostCoverage_result:
  fixes this region
  defines "filtered \<equiv> std_sort (filterByRegion this region)"
  defines "m \<equiv> walk_stop (snd (dp_run filtered (targetStart this))) (length filtered)"
  shows "findMinimumCostCoverage this region =
           Some ((drop m filtered, sum_list (map getCost (drop m filtered)),
                  find_gaps (targetStart this) (targetEnd this) (drop m filtered)), this)"
proof -
  obtain dp parent where t: "dp_run filtered (targetStart this) = (dp, parent)"
    by (cases "dp_run filtered (targetStart this)")
  have ok: "parent_ok parent" using dp_run_parent_ok [of filtered "targetStart this"] t by simp
  have len: "length filtered < length parent"
    using dp_run_length [of filtered "targetStart this"] t by simp
  have m: "m = walk_stop parent (length filtered)" using t by (simp add: m_def)
  have le: "m \<le> length filtered" unfolding m by (rule walk_stop_le)
  have "reconstruct filtered parent (int (length filtered)) [] 0 =
          Some (rev (drop m filtered), sum_list (map getCost (drop m filtered)))"
    using le by (simp add: reconstruct_walk [OF ok len] m [symmetric] map_nth_drop sum_cost_drop)
  then show ?thesis
    using t by (simp add: findMinimumCostCoverage_def filtered_def [symmetric] Let_def)
qed

lemma walk_stop_undefined: "parent ! m = - 1 \<Longrightarrow> walk_stop parent m = m"
  by (cases m) simp_all

lemma sorted_std_sort: "sorted (map (\<lambda>sat. getStart (getInterval sat)) (std_sort xs))"
  by (simp add: std_sort_def)

section \<open>Gaps\<close>

lemma gap_loop_strict:
  "\<forall>g \<in> set (fst st). getStart g < getEnd g \<Longrightarrow>
     \<forall>g \<in> set (fst (gap_loop sats st)). getStart g < getEnd g"
proof (induction sats st rule: gap_loop.induct)
  case (1 gs currentEnd)
  then show ?case by simp
next
  case (2 sat sats gs currentEnd)
  show ?case
    using "2.prems" by (simp only: gap_loop.simps) (rule "2.IH", auto)
qed

lemma find_gaps_strict:
  "\<forall>g \<in> set (find_gaps tStart tEnd selected). getStart g < getEnd g"
proof -
  obtain gs currentEnd where g: "gap_loop selected ([], tStart) = (gs, currentEnd)"
    by (cases "gap_loop selected ([], tStart)")
  from gap_loop_strict [of "([], tStart)" selected] g
  have "\<forall>g \<in> set gs. getStart g < getEnd g" by simp
  with g show ?thesis by (auto simp: find_gaps_def)
qed

lemma greedy_body_strict:
  assumes "greedy_body filtered tEnd (sel, gs, currentEnd, i) = ((sel', gs', currentEnd', i'), brk)"
    and "\<forall>g \<in> set gs. getStart g < getEnd g"
  shows "\<forall>g \<in> set gs'. getStart g < getEnd g"
proof -
  obtain cands i1 where c: "collectCandidates filtered currentEnd [] i = (cands, i1)"
    by (cases "collectCandidates filtered currentEnd [] i")
  show ?thesis
  proof (cases cands)
    case Nil
    with assms c show ?thesis
      by (auto simp: greedy_body.simps Let_def split: if_splits)
  next
    case (Cons c' cs)
    with assms c show ?thesis
      by (auto simp: greedy_body.simps Let_def)
  qed
qed

lemma greedy_loop_strict:
  "\<forall>g \<in> set (fst (snd st)). getStart g < getEnd g \<Longrightarrow>
     \<forall>g \<in> set (fst (snd (greedy_loop filtered tEnd st))). getStart g < getEnd g"
proof (induction filtered tEnd st rule: greedy_loop.induct)
  case (1 filtered tEnd sel gs currentEnd i)
  show ?case
  proof (cases "currentEnd < tEnd \<and> i < length filtered")
    case False
    with "1.prems" show ?thesis by (subst greedy_loop.simps) auto
  next
    case True
    obtain sel' gs' currentEnd' i' brk where
      b: "greedy_body filtered tEnd (sel, gs, currentEnd, i) = ((sel', gs', currentEnd', i'), brk)"
      by (metis prod_cases4 surj_pair)
    from greedy_body_strict [OF b] "1.prems"
    have s: "\<forall>g \<in> set gs'. getStart g < getEnd g" by simp
    show ?thesis
    proof (cases brk)
      case True
      with \<open>currentEnd < tEnd \<and> i < length filtered\<close> b s show ?thesis
        by (simp add: greedy_loop.simps [of filtered tEnd sel gs currentEnd i])
    next
      case False
      from "1.IH" [OF True b [symmetric] False] s
      have "\<forall>g \<in> set (fst (snd (greedy_loop filtered tEnd (sel', gs', currentEnd', i')))).
              getStart g < getEnd g" by simp
      with False \<open>currentEnd < tEnd \<and> i < length filtered\<close> b show ?thesis
        by (simp add: greedy_loop.simps [of filtered tEnd sel gs currentEnd i])
    qed
  qed
qed

lemma findMinimumSatellites_this: "snd (findMinimumSatellites this region) = this"
  by (simp add: findMinimumSatellites_def Let_def split: prod.splits)


section \<open>The selection of \<open>findMinimumCostCoverage\<close> and its gaps tile the window\<close>

lemma dp_inv_update:
  assumes inv: "dp_inv filtered tStart (dp, parent)"
    and j: "j < length filtered" and fin: "dp ! j \<noteq> Infinity"
    and r: "reach filtered tStart j"
  shows "dp_inv filtered tStart (dp[Suc j := Finite x], parent[Suc j := int j])"
proof -
  from inv have ld: "length dp = length filtered + 1" and lp: "length parent = length filtered + 1"
    and ok: "parent_ok parent" and d0: "dp ! 0 \<noteq> Infinity"
    and iff: "\<And>k. k < length filtered \<Longrightarrow> parent ! Suc k \<noteq> - 1 \<longleftrightarrow> dp ! Suc k \<noteq> Infinity"
    and down: "\<And>k. k < length filtered \<Longrightarrow> dp ! Suc k \<noteq> Infinity \<Longrightarrow> dp ! k \<noteq> Infinity"
    and rch: "\<And>k. k < length filtered \<Longrightarrow> parent ! Suc k \<noteq> - 1 \<Longrightarrow> reach filtered tStart k"
    by (simp_all add: dp_inv_def)
  have a: "\<forall>k < length filtered.
             parent[Suc j := int j] ! Suc k \<noteq> - 1 \<longleftrightarrow> dp[Suc j := Finite x] ! Suc k \<noteq> Infinity"
  proof (intro allI impI)
    fix k assume k: "k < length filtered"
    show "parent[Suc j := int j] ! Suc k \<noteq> - 1 \<longleftrightarrow> dp[Suc j := Finite x] ! Suc k \<noteq> Infinity"
    proof (cases "k = j")
      case True
      with j ld lp show ?thesis by simp
    next
      case False
      with iff [OF k] show ?thesis by simp
    qed
  qed
  have b: "\<forall>k < length filtered.
             dp[Suc j := Finite x] ! Suc k \<noteq> Infinity \<longrightarrow> dp[Suc j := Finite x] ! k \<noteq> Infinity"
  proof (intro allI impI)
    fix k assume k: "k < length filtered" and f: "dp[Suc j := Finite x] ! Suc k \<noteq> Infinity"
    show "dp[Suc j := Finite x] ! k \<noteq> Infinity"
    proof (cases "k = Suc j")
      case True
      with k ld show ?thesis by simp
    next
      case False
      note kj = this
      show ?thesis
      proof (cases "k = j")
        case True
        with fin show ?thesis by simp
      next
        case False
        with f have "dp ! Suc k \<noteq> Infinity" by simp
        from down [OF k this] kj show ?thesis by simp
      qed
    qed
  qed
  have c: "\<forall>k < length filtered. parent[Suc j := int j] ! Suc k \<noteq> - 1 \<longrightarrow> reach filtered tStart k"
  proof (intro allI impI)
    fix k assume k: "k < length filtered" and f: "parent[Suc j := int j] ! Suc k \<noteq> - 1"
    show "reach filtered tStart k"
    proof (cases "k = j")
      case True
      with r show ?thesis by simp
    next
      case False
      with f have "parent ! Suc k \<noteq> - 1" by simp
      from rch [OF k this] show ?thesis .
    qed
  qed
  from ld lp d0 parent_ok_update [OF ok, of j] a b c show ?thesis
    by (simp add: dp_inv_def)
qed

lemma relax_loop_inv:
  assumes "dp_inv filtered tStart t" and "i \<le> j" and "fst t ! j \<noteq> Infinity"
    and "fst t ! i \<noteq> Infinity"
    and "currentEnd = (if i = 0 then tStart else getEnd (getInterval (filtered ! (i - 1))))"
  shows "dp_inv filtered tStart (relax_loop filtered currentEnd i j t)"
  using assms
proof (induction filtered currentEnd i j t rule: relax_loop.induct)
  case (1 filtered currentEnd i j dp parent)
  note inv = \<open>dp_inv filtered tStart (dp, parent)\<close>
  from "1.prems" have ij: "i \<le> j" and fj: "dp ! j \<noteq> Infinity" and fi: "dp ! i \<noteq> Infinity"
    and ce: "currentEnd = (if i = 0 then tStart else getEnd (getInterval (filtered ! (i - 1))))"
    by simp_all
  show ?case
  proof (cases "j < length filtered \<and> \<not> currentEnd < getStart (getInterval (filtered ! j))")
    case False
    with inv show ?thesis by (subst relax_loop.simps) auto
  next
    case True
    then have j: "j < length filtered"
      and st: "getStart (getInterval (filtered ! j)) \<le> currentEnd" by simp_all
    obtain a where a: "dp ! i = Finite a" using fi by (cases "dp ! i") simp_all
    let ?new = "dp_add (dp ! i) (getCost (filtered ! j))"
    have new: "?new = Finite (a + getCost (filtered ! j))" by (simp add: a)
    have r: "reach filtered tStart j"
    proof (cases "i = 0")
      case True
      with ce st show ?thesis by (simp add: reach_def)
    next
      case False
      with ce st ij have "i - 1 < j \<and> getStart (getInterval (filtered ! j)) \<le> getEnd (getInterval (filtered ! (i - 1)))"
        by simp
      then show ?thesis unfolding reach_def by blast
    qed
    from inv have ld: "length dp = length filtered + 1" by (simp add: dp_inv_def)
    show ?thesis
    proof (cases "dp_less ?new (dp ! (j + 1))")
      case True
      have inv': "dp_inv filtered tStart (dp[j + 1 := ?new], parent[j + 1 := int j])"
        using dp_inv_update [OF inv j fj r] new by simp
      have fj': "fst (dp[j + 1 := ?new], parent[j + 1 := int j]) ! Suc j \<noteq> Infinity"
        using j ld new by simp
      have fi': "fst (dp[j + 1 := ?new], parent[j + 1 := int j]) ! i \<noteq> Infinity"
        using ij fi by simp
      have "dp_inv filtered tStart
              (relax_loop filtered currentEnd i (Suc j) (dp[j + 1 := ?new], parent[j + 1 := int j]))"
        using "1.IH"(1) [OF j _ refl True inv' _ fj' fi' ce] st ij by simp
      with True j st show ?thesis
        by (subst relax_loop.simps) (simp add: Let_def)
    next
      case False
      then have fj': "fst (dp, parent) ! Suc j \<noteq> Infinity"
        by (cases "dp ! Suc j") (simp_all add: new)
      have "dp_inv filtered tStart (relax_loop filtered currentEnd i (Suc j) (dp, parent))"
        using "1.IH"(2) [OF j _ refl False inv _ fj' _ ce] st ij fi by simp
      with False j st show ?thesis
        by (subst relax_loop.simps) (simp add: Let_def)
    qed
  qed
qed

lemma dp_loop_inv:
  assumes "dp_inv filtered tStart t"
  shows "dp_inv filtered tStart (dp_loop filtered tStart i t)"
  using assms
proof (induction filtered tStart i t rule: dp_loop.induct)
  case (1 filtered tStart i dp parent)
  note inv = \<open>dp_inv filtered tStart (dp, parent)\<close>
  show ?case
  proof (cases "i < length filtered")
    case False
    with inv show ?thesis by (subst dp_loop.simps) simp
  next
    case True
    note i = this
    show ?thesis
    proof (cases "dp ! i = Infinity")
      case True
      with i "1.IH"(1) [OF i True inv] show ?thesis
        by (subst dp_loop.simps) simp
    next
      case False
      let ?ce = "if i = 0 then tStart else getEnd (getInterval (filtered ! nat (parent ! i)))"
      have ce: "?ce = (if i = 0 then tStart else getEnd (getInterval (filtered ! (i - 1))))"
      proof (cases i)
        case 0
        then show ?thesis by simp
      next
        case (Suc k)
        with i have k: "k < length filtered" by simp
        from inv k False Suc have "parent ! Suc k \<noteq> - 1" by (simp add: dp_inv_def)
        moreover from inv have "parent_ok parent" "length parent = length filtered + 1"
          by (simp_all add: dp_inv_def)
        ultimately have "parent ! Suc k = int k" using k by (auto simp: parent_ok_def)
        with Suc show ?thesis by simp
      qed
      have "dp_inv filtered tStart (relax_loop filtered ?ce i i (dp, parent))"
        by (rule relax_loop_inv [OF inv]) (simp_all add: False ce)
      from "1.IH"(2) [OF i False refl this] i False show ?thesis
        by (subst dp_loop.simps) (simp add: Let_def)
    qed
  qed
qed

lemma dp_inv_init:
  "dp_inv filtered tStart
     ((replicate (length filtered + 1) Infinity)[0 := Finite 0], replicate (length filtered + 1) (- 1))"
  using parent_ok_replicate [of "length filtered + 1"]
  by (simp add: dp_inv_def)

lemma dp_run_inv: "dp_inv filtered tStart (dp_run filtered tStart)"
  unfolding dp_run_def Let_def by (rule dp_loop_inv) (rule dp_inv_init)

lemma dp_finite_below:
  assumes "dp_inv filtered tStart (dp, parent)"
  shows "k \<le> length filtered \<Longrightarrow> dp ! k \<noteq> Infinity \<Longrightarrow> k' \<le> k \<Longrightarrow> dp ! k' \<noteq> Infinity"
proof (induction k)
  case 0
  then show ?case by simp
next
  case (Suc k)
  show ?case
  proof (cases "k' = Suc k")
    case True
    with Suc.prems show ?thesis by simp
  next
    case False
    from assms Suc.prems have "dp ! k \<noteq> Infinity" by (simp add: dp_inv_def)
    with Suc False show ?thesis by simp
  qed
qed

lemma walk_stop_all_defined:
  "(\<forall>k. 0 < k \<and> k \<le> m \<longrightarrow> parent ! k \<noteq> - 1) \<Longrightarrow> walk_stop parent m = 0"
  by (induction m) simp_all

lemma dp_inv_all_or_nothing:
  assumes inv: "dp_inv filtered tStart (dp, parent)"
    and def: "parent ! length filtered \<noteq> - 1"
  shows "walk_stop parent (length filtered) = 0"
    and "\<forall>k < length filtered. reach filtered tStart k"
proof -
  have n: "0 < length filtered"
  proof (rule ccontr)
    assume "\<not> 0 < length filtered"
    then have "length filtered = 0" by simp
    moreover from inv have "parent_ok parent" "length parent = length filtered + 1"
      by (simp_all add: dp_inv_def)
    ultimately have "parent ! length filtered = - 1" by (auto simp: parent_ok_def)
    with def show False by simp
  qed
  then obtain n' where n': "length filtered = Suc n'" by (cases "length filtered") simp_all
  with inv def have fin: "dp ! length filtered \<noteq> Infinity" by (simp add: dp_inv_def)
  have all: "parent ! Suc k \<noteq> - 1" if "k < length filtered" for k
  proof -
    from that have "Suc k \<le> length filtered" by simp
    from dp_finite_below [OF inv le_refl fin this] have "dp ! Suc k \<noteq> Infinity" .
    with inv that show ?thesis by (simp add: dp_inv_def)
  qed
  have "\<forall>k. 0 < k \<and> k \<le> length filtered \<longrightarrow> parent ! k \<noteq> - 1"
  proof (intro allI impI)
    fix k assume "0 < k \<and> k \<le> length filtered"
    then obtain k' where "k = Suc k'" "k' < length filtered" by (cases k) simp_all
    with all show "parent ! k \<noteq> - 1" by simp
  qed
  then show "walk_stop parent (length filtered) = 0" by (rule walk_stop_all_defined)
  from inv all show "\<forall>k < length filtered. reach filtered tStart k"
    by (simp add: dp_inv_def)
qed

lemma reach_chained:
  "(\<forall>k < length xs. getStart (getInterval (xs ! k)) \<le> currentEnd \<or>
      (\<exists>i < k. getStart (getInterval (xs ! k)) \<le> getEnd (getInterval (xs ! i)))) \<Longrightarrow>
   chained currentEnd xs"
proof (induction xs arbitrary: currentEnd)
  case Nil
  show ?case by simp
next
  case (Cons x xs)
  from Cons.prems [rule_format, of 0] have h: "getStart (getInterval x) \<le> currentEnd" by simp
  have "\<forall>k < length xs. getStart (getInterval (xs ! k)) \<le> max currentEnd (getEnd (getInterval x)) \<or>
      (\<exists>i < k. getStart (getInterval (xs ! k)) \<le> getEnd (getInterval (xs ! i)))"
  proof (intro allI impI)
    fix k assume k: "k < length xs"
    from Cons.prems [rule_format, of "Suc k"] k
    consider "getStart (getInterval (xs ! k)) \<le> currentEnd"
      | i where "i < Suc k" "getStart (getInterval (xs ! k)) \<le> getEnd (getInterval ((x # xs) ! i))"
      by auto
    then show "getStart (getInterval (xs ! k)) \<le> max currentEnd (getEnd (getInterval x)) \<or>
      (\<exists>i < k. getStart (getInterval (xs ! k)) \<le> getEnd (getInterval (xs ! i)))"
    proof cases
      case 1
      then show ?thesis by (simp add: le_max_iff_disj)
    next
      case (2 i)
      show ?thesis
      proof (cases i)
        case 0
        with 2 show ?thesis by (simp add: le_max_iff_disj)
      next
        case (Suc i')
        with 2 have "i' < k \<and> getStart (getInterval (xs ! k)) \<le> getEnd (getInterval (xs ! i'))"
          by simp
        then show ?thesis by blast
      qed
    qed
  qed
  from Cons.IH [OF this] h show ?case by simp
qed

lemma gap_loop_chained:
  "chained currentEnd xs \<Longrightarrow> gap_loop xs (gs, currentEnd) = (gs, frontier currentEnd xs)"
  by (induction xs arbitrary: currentEnd) simp_all

lemma frontier_ge: "currentEnd \<le> frontier currentEnd xs"
proof (induction xs arbitrary: currentEnd)
  case Nil
  show ?case by simp
next
  case (Cons x xs)
  have "currentEnd \<le> max currentEnd (getEnd (getInterval x))" by simp
  also have "\<dots> \<le> frontier (max currentEnd (getEnd (getInterval x))) xs" by (rule Cons.IH)
  finally show ?case by simp
qed

lemma frontier_ge_ends: "sat \<in> set xs \<Longrightarrow> getEnd (getInterval sat) \<le> frontier currentEnd xs"
proof (induction xs arbitrary: currentEnd)
  case Nil
  then show ?case by simp
next
  case (Cons x xs)
  show ?case
  proof (cases "sat = x")
    case True
    have "getEnd (getInterval x) \<le> max currentEnd (getEnd (getInterval x))" by simp
    also have "\<dots> \<le> frontier (max currentEnd (getEnd (getInterval x))) xs" by (rule frontier_ge)
    finally show ?thesis using True by simp
  next
    case False
    with Cons.prems have "sat \<in> set xs" by simp
    from Cons.IH [OF this] show ?thesis by simp
  qed
qed

lemma chained_covers:
  "chained currentEnd xs \<Longrightarrow> currentEnd \<le> t \<Longrightarrow> t < frontier currentEnd xs \<Longrightarrow>
     \<exists>sat \<in> set xs. getStart (getInterval sat) \<le> t \<and> t < getEnd (getInterval sat)"
proof (induction xs arbitrary: currentEnd)
  case Nil
  then show ?case by simp
next
  case (Cons x xs)
  show ?case
  proof (cases "t < max currentEnd (getEnd (getInterval x))")
    case True
    with Cons.prems have "getStart (getInterval x) \<le> t \<and> t < getEnd (getInterval x)" by auto
    then show ?thesis by auto
  next
    case False
    then have "max currentEnd (getEnd (getInterval x)) \<le> t" by (simp only: not_less)
    from Cons.IH [OF _ this] Cons.prems show ?thesis by auto
  qed
qed

lemma chained_tiles:
  assumes c: "chained tStart xs" and w: "tStart < tEnd"
  shows "(\<Union>sat \<in> set xs. {max tStart (getStart (getInterval sat)) ..<
                              min tEnd (getEnd (getInterval sat))}) \<union>
         (\<Union>g \<in> set (find_gaps tStart tEnd xs). {getStart g ..< getEnd g}) = {tStart ..< tEnd}"
    and "\<forall>g \<in> set (find_gaps tStart tEnd xs). \<forall>sat \<in> set xs.
           {getStart g ..< getEnd g} \<inter>
           {getStart (getInterval sat) ..< getEnd (getInterval sat)} = {}"
proof -
  let ?E = "frontier tStart xs"
  have fg: "find_gaps tStart tEnd xs =
              (if ?E < tEnd then [\<lparr>getStart = ?E, getEnd = tEnd\<rparr>] else [])"
    by (simp add: find_gaps_def gap_loop_chained [OF c])
  have ge: "tStart \<le> ?E" by (rule frontier_ge)
  show "(\<Union>sat \<in> set xs. {max tStart (getStart (getInterval sat)) ..<
                              min tEnd (getEnd (getInterval sat))}) \<union>
         (\<Union>g \<in> set (find_gaps tStart tEnd xs). {getStart g ..< getEnd g}) = {tStart ..< tEnd}"
  proof (intro set_eqI iffI)
    fix t
    assume "t \<in> (\<Union>sat \<in> set xs. {max tStart (getStart (getInterval sat)) ..<
                              min tEnd (getEnd (getInterval sat))}) \<union>
         (\<Union>g \<in> set (find_gaps tStart tEnd xs). {getStart g ..< getEnd g})"
    with ge show "t \<in> {tStart ..< tEnd}" by (auto simp: fg split: if_splits)
  next
    fix t
    assume t: "t \<in> {tStart ..< tEnd}"
    show "t \<in> (\<Union>sat \<in> set xs. {max tStart (getStart (getInterval sat)) ..<
                              min tEnd (getEnd (getInterval sat))}) \<union>
         (\<Union>g \<in> set (find_gaps tStart tEnd xs). {getStart g ..< getEnd g})"
    proof (cases "t < ?E")
      case True
      from chained_covers [OF c _ True] t obtain sat where
        "sat \<in> set xs" "getStart (getInterval sat) \<le> t" "t < getEnd (getInterval sat)" by auto
      with t show ?thesis by auto
    next
      case False
      with t show ?thesis by (auto simp: fg)
    qed
  qed
  show "\<forall>g \<in> set (find_gaps tStart tEnd xs). \<forall>sat \<in> set xs.
           {getStart g ..< getEnd g} \<inter>
           {getStart (getInterval sat) ..< getEnd (getInterval sat)} = {}"
    using frontier_ge_ends [of _ xs tStart] by (fastforce simp: fg split: if_splits)
qed

text \<open>
  For a window with \<open>targetStart < targetEnd\<close>, \<open>findMinimumCostCoverage\<close> returns either
  the empty selection or the whole sorted list, and the intervals of the selection,
  clipped to the window, together with the reported gaps make up exactly the window; no
  reported gap meets a selected interval.
\<close>

lemma findMinimumCostCoverage_tiles_window:
  assumes w: "targetStart this < targetEnd this"
  shows "\<exists>sel tc gs.
           findMinimumCostCoverage this region = Some ((sel, tc, gs), this) \<and>
           (sel = [] \<or> sel = std_sort (filterByRegion this region)) \<and>
           (\<Union>sat \<in> set sel. {max (targetStart this) (getStart (getInterval sat)) ..<
                                min (targetEnd this) (getEnd (getInterval sat))}) \<union>
           (\<Union>g \<in> set gs. {getStart g ..< getEnd g}) = {targetStart this ..< targetEnd this} \<and>
           (\<forall>g \<in> set gs. \<forall>sat \<in> set sel.
              {getStart g ..< getEnd g} \<inter>
              {getStart (getInterval sat) ..< getEnd (getInterval sat)} = {})"
proof -
  let ?f = "std_sort (filterByRegion this region)"
  obtain dp parent where t: "dp_run ?f (targetStart this) = (dp, parent)"
    by (cases "dp_run ?f (targetStart this)")
  have inv: "dp_inv ?f (targetStart this) (dp, parent)"
    using dp_run_inv [of ?f "targetStart this"] t by simp
  let ?m = "walk_stop parent (length ?f)"
  have res: "findMinimumCostCoverage this region =
           Some ((drop ?m ?f, sum_list (map getCost (drop ?m ?f)),
                  find_gaps (targetStart this) (targetEnd this) (drop ?m ?f)), this)"
    using findMinimumCostCoverage_result [of this region] t by simp
  have "chained (targetStart this) (drop ?m ?f) \<and> (drop ?m ?f = [] \<or> drop ?m ?f = ?f)"
  proof (cases "parent ! length ?f = - 1")
    case True
    then show ?thesis by (simp add: walk_stop_undefined)
  next
    case False
    from dp_inv_all_or_nothing [OF inv False]
    have m: "?m = 0" and r: "\<forall>k < length ?f. reach ?f (targetStart this) k" by simp_all
    from r have "chained (targetStart this) ?f"
      by (intro reach_chained) (simp add: reach_def)
    with m show ?thesis by simp
  qed
  with chained_tiles [OF _ w, of "drop ?m ?f"] res show ?thesis by simp
qed

section \<open>The greedy loop and the summary\<close>

lemma findMinimumSatellites_empty:
  assumes "filterByRegion this region = []"
  shows "findMinimumSatellites this region =
           (([], if targetStart this < targetEnd this
                 then [\<lparr>getStart = targetStart this, getEnd = targetEnd this\<rparr>] else []), this)"
  by (simp add: findMinimumSatellites_def assms std_sort_Nil greedy_loop_Nil)

lemma getCoverageSummary_this: "snd (getCoverageSummary this region) = this"
proof -
  obtain sel gs where f: "findMinimumSatellites this region = ((sel, gs), this)"
    using findMinimumSatellites_this [of this region]
    by (metis prod.collapse)
  show ?thesis
    by (simp add: getCoverageSummary_def f Let_def split: prod.splits)
qed

lemma collectCandidates_stop:
  "i < length filtered \<Longrightarrow> currentEnd < getStart (getInterval (filtered ! i)) \<Longrightarrow>
     collectCandidates filtered currentEnd candidates i = (candidates, i)"
  by (simp add: collectCandidates.simps)

lemma summary_loop_sums:
  "summary_loop tStart tEnd sel (tc, coveredTime) =
     (tc + sum_list (map getCost sel),
      coveredTime + sum_list (map (\<lambda>sat. min tEnd (getEnd (getInterval sat)) -
                                         max tStart (getStart (getInterval sat))) sel))"
  by (induction sel arbitrary: tc coveredTime) (simp_all add: Let_def)

lemma coveredDuration_unclamped:
  "coveredDuration (fst (getCoverageSummary this region)) =
     sum_list (map (\<lambda>sat. min (targetEnd this) (getEnd (getInterval sat)) -
                         max (targetStart this) (getStart (getInterval sat)))
                 (fst (fst (findMinimumSatellites this region))))"
proof -
  obtain sel gs where f: "findMinimumSatellites this region = ((sel, gs), this)"
    using findMinimumSatellites_this [of this region] by (metis prod.collapse)
  show ?thesis
    by (simp add: getCoverageSummary_def f summary_loop_sums Let_def del: summary_loop.simps)
qed

section \<open>The scenario of region \<open>Asia\<close>\<close>

lemma filter_singleton:
  assumes "mset xs = {#a, b, c#}" and "P a" and "\<not> P b" and "\<not> P c"
  shows "filter P xs = [a]"
proof -
  have "mset (filter P xs) = filter_mset P (mset xs)" by simp
  also have "\<dots> = {#a#}" using assms by simp
  finally show ?thesis by (simp only: mset_single_iff)
qed

lemma std_sort_asia:
  assumes "mset xs = {#Sat_Alpha, Sat_Eta, Sat_Gamma#}"
  shows "std_sort xs = [Sat_Alpha, Sat_Eta, Sat_Gamma]"
  unfolding std_sort_def
proof (rule properties_for_sort_key)
  show "mset [Sat_Alpha, Sat_Eta, Sat_Gamma] = mset xs" using assms by simp
next
  show "sorted (map (\<lambda>sat. getStart (getInterval sat)) [Sat_Alpha, Sat_Eta, Sat_Gamma])"
    by (simp add: Sat_Alpha_def Sat_Eta_def Sat_Gamma_def)
next
  fix k
  assume "k \<in> set [Sat_Alpha, Sat_Eta, Sat_Gamma]"
  then consider "k = Sat_Alpha" | "k = Sat_Eta" | "k = Sat_Gamma" by auto
  then show "filter (\<lambda>x. getStart (getInterval k) = getStart (getInterval x))
               [Sat_Alpha, Sat_Eta, Sat_Gamma] =
             filter (\<lambda>x. getStart (getInterval k) = getStart (getInterval x)) xs"
  proof cases
    case 1
    have "filter (\<lambda>x. getStart (getInterval k) = getStart (getInterval x)) xs = [Sat_Alpha]"
      by (rule filter_singleton [OF assms]) (simp_all add: 1 Sat_Alpha_def Sat_Eta_def Sat_Gamma_def)
    then show ?thesis by (simp add: 1 Sat_Alpha_def Sat_Eta_def Sat_Gamma_def)
  next
    case 2
    have "mset xs = {#Sat_Eta, Sat_Alpha, Sat_Gamma#}" using assms by simp
    then have "filter (\<lambda>x. getStart (getInterval k) = getStart (getInterval x)) xs = [Sat_Eta]"
      by (rule filter_singleton) (simp_all add: 2 Sat_Alpha_def Sat_Eta_def Sat_Gamma_def)
    then show ?thesis by (simp add: 2 Sat_Alpha_def Sat_Eta_def Sat_Gamma_def)
  next
    case 3
    have "mset xs = {#Sat_Gamma, Sat_Alpha, Sat_Eta#}" using assms by simp
    then have "filter (\<lambda>x. getStart (getInterval k) = getStart (getInterval x)) xs = [Sat_Gamma]"
      by (rule filter_singleton) (simp_all add: 3 Sat_Alpha_def Sat_Eta_def Sat_Gamma_def)
    then show ?thesis by (simp add: 3 Sat_Alpha_def Sat_Eta_def Sat_Gamma_def)
  qed
qed

lemma greedy_asia:
  "greedy_loop [Sat_Alpha, Sat_Eta, Sat_Gamma] 24 ([], [], 0, 0) =
     ([Sat_Alpha, Sat_Eta, Sat_Gamma], [], 14, 3)"
  by code_simp

lemma summary_asia:
  "summary_loop 0 24 [Sat_Alpha, Sat_Eta, Sat_Gamma] (0, 0) = (3900, 18)"
  by code_simp


section \<open>The claims\<close>

text \<open>
  C1. Over the window \<open>[0,24)\<close> with satellites \<open>[0,10)\<close>, \<open>[1,3)\<close> and \<open>[2,4)\<close>,
  \<open>findMinimumSatellites\<close> selects \<open>[0,10)\<close> and \<open>[2,4)\<close> and reports the gap \<open>[4,24)\<close>,
  which overlaps the selected \<open>[0,10)\<close>: after the second selection \<open>currentEnd\<close> went back
  from 10 to 4. So the selection and the gaps of \<open>findMinimumSatellites\<close> do not tile the
  window there; those of \<open>findMinimumCostCoverage\<close> always do, as shown above.
\<close>

theorem greedy_gap_overlaps_selection:
  "fst (findMinimumSatellites retreating ''All'') =
     ([\<lparr>getName = ''Sat-A'', getInterval = \<lparr>getStart = 0, getEnd = 10\<rparr>,
         getCost = 1, getRegion = ''Global''\<rparr>,
       \<lparr>getName = ''Sat-C'', getInterval = \<lparr>getStart = 2, getEnd = 4\<rparr>,
         getCost = 1, getRegion = ''Global''\<rparr>],
      [\<lparr>getStart = 4, getEnd = 24\<rparr>]) \<and>
   overlaps \<lparr>getStart = 4, getEnd = 24\<rparr> \<lparr>getStart = 0, getEnd = 10\<rparr>"
  by code_simp

text \<open>
  C2. Over the window \<open>[0,24)\<close> with satellites \<open>[0,5)\<close> and \<open>[30,40)\<close>, the greedy
  selects both; \<open>getCoverageSummary\<close> reports \<open>coveredDuration = 5 + (24 - 30) = -1\<close>, while
  the sum of the contributions clamped at zero is 5.
\<close>

theorem coveredDuration_negative_contribution:
  "coveredDuration (fst (getCoverageSummary beyond_window ''All'')) = - 1 \<and>
   sum_list (map (\<lambda>sat. max 0 (min (targetEnd beyond_window) (getEnd (getInterval sat)) -
                               max (targetStart beyond_window) (getStart (getInterval sat))))
               (fst (fst (findMinimumSatellites beyond_window ''All'')))) = 5"
  by code_simp

text \<open>
  C3 (as amended). For a registry whose satellites of region \<open>Asia\<close> are exactly Sat-Alpha
  \<open>[0,6)\<close> at cost 1200, Sat-Eta \<open>[2,8)\<close> at cost 900 and Sat-Gamma \<open>[8,14)\<close> at cost 1800,
  in any order and among satellites of other regions, the coverage summary of region
  \<open>Asia\<close> over the window \<open>[0,24)\<close> reports exactly one gap \<open>[14,24)\<close> of duration 10,
  \<open>coveredDuration = 18\<close> (the time \<open>[2,6)\<close> shared by Sat-Alpha and Sat-Eta is counted
  twice) and \<open>coveragePercentage = 75\<close>.
\<close>

theorem asia_summary_double_counts:
  assumes "mset (filterByRegion this ''Asia'') = {#Sat_Alpha, Sat_Eta, Sat_Gamma#}"
    and "targetStart this = 0" and "targetEnd this = 24"
  shows "gaps (fst (getCoverageSummary this ''Asia'')) = [\<lparr>getStart = 14, getEnd = 24\<rparr>] \<and>
         map getDuration (gaps (fst (getCoverageSummary this ''Asia''))) = [10] \<and>
         coveredDuration (fst (getCoverageSummary this ''Asia'')) = 18 \<and>
         coveragePercentage (fst (getCoverageSummary this ''Asia'')) = Some 75"
proof -
  have f: "findMinimumSatellites this ''Asia'' =
             (([Sat_Alpha, Sat_Eta, Sat_Gamma], [\<lparr>getStart = 14, getEnd = 24\<rparr>]), this)"
    by (simp add: findMinimumSatellites_def std_sort_asia [OF assms(1)] assms(2,3) greedy_asia)
  show ?thesis
    by (simp add: getCoverageSummary_def f assms(2,3) summary_asia getDuration_def
          del: summary_loop.simps)
qed

text \<open>The registry of \<open>main\<close> is such a registry.\<close>

theorem asia_summary_double_counts_witness:
  "mset (filterByRegion main_optimizer ''Asia'') = {#Sat_Alpha, Sat_Eta, Sat_Gamma#} \<and>
   targetStart main_optimizer = 0 \<and> targetEnd main_optimizer = 24 \<and>
   gaps (fst (getCoverageSummary main_optimizer ''Asia'')) = [\<lparr>getStart = 14, getEnd = 24\<rparr>] \<and>
   coveredDuration (fst (getCoverageSummary main_optimizer ''Asia'')) = 18 \<and>
   coveragePercentage (fst (getCoverageSummary main_optimizer ''Asia'')) = Some 75"
proof -
  have r: "filterByRegion main_optimizer ''Asia'' = [Sat_Alpha, Sat_Gamma, Sat_Eta]"
    by code_simp
  have h1: "mset (filterByRegion main_optimizer ''Asia'') = {#Sat_Alpha, Sat_Eta, Sat_Gamma#}"
    by (simp add: r)
  have h2: "targetStart main_optimizer = 0" by code_simp
  have h3: "targetEnd main_optimizer = 24" by code_simp
  from asia_summary_double_counts [OF h1 h2 h3] h1 h2 h3 show ?thesis by simp
qed

text \<open>
  C3 as stated (\<open>coveredDuration = 14\<close>, \<open>coveragePercentage\<close> about 58.33) fails on the
  registry of \<open>main\<close>.
\<close>

theorem asia_summary_counterexample:
  "\<not> (gaps (fst (getCoverageSummary main_optimizer ''Asia'')) = [\<lparr>getStart = 14, getEnd = 24\<rparr>] \<and>
      coveredDuration (fst (getCoverageSummary main_optimizer ''Asia'')) = 14 \<and>
      \<bar>the (coveragePercentage (fst (getCoverageSummary main_optimizer ''Asia''))) - 58.33\<bar> < 0.01)"
proof -
  have "coveredDuration (fst (getCoverageSummary main_optimizer ''Asia'')) = 18"
    by code_simp
  then show ?thesis by simp
qed

text \<open>
  C4 (as amended). In a round of the loop of \<open>findMinimumSatellites\<close> (so
  \<open>currentEnd < targetEnd\<close>) in which the next unconsidered satellite \<open>filtered[i]\<close> starts
  after \<open>currentEnd\<close> (the candidate set is empty), the body records the gap from
  \<open>currentEnd\<close> to the smaller of that start and \<open>targetEnd\<close>, appends \<open>filtered[i]\<close> to the
  selection, sets \<open>currentEnd\<close> to its end and \<open>i\<close> to \<open>i + 1\<close>, and the loop goes on from
  that state.
\<close>

theorem forced_selection_after_gap:
  assumes "currentEnd < tEnd" and "i < length filtered"
    and "currentEnd < getStart (getInterval (filtered ! i))"
  shows "greedy_body filtered tEnd (sel, gs, currentEnd, i) =
           ((sel @ [filtered ! i],
             gs @ [\<lparr>getStart = currentEnd,
                    getEnd = min (getStart (getInterval (filtered ! i))) tEnd\<rparr>],
             getEnd (getInterval (filtered ! i)), Suc i), False) \<and>
         greedy_loop filtered tEnd (sel, gs, currentEnd, i) =
           greedy_loop filtered tEnd
             (sel @ [filtered ! i],
              gs @ [\<lparr>getStart = currentEnd,
                     getEnd = min (getStart (getInterval (filtered ! i))) tEnd\<rparr>],
              getEnd (getInterval (filtered ! i)), Suc i)"
proof -
  have b: "greedy_body filtered tEnd (sel, gs, currentEnd, i) =
           ((sel @ [filtered ! i],
             gs @ [\<lparr>getStart = currentEnd,
                    getEnd = min (getStart (getInterval (filtered ! i))) tEnd\<rparr>],
             getEnd (getInterval (filtered ! i)), Suc i), False)"
    using assms by (simp add: greedy_body.simps collectCandidates_stop Let_def)
  show ?thesis
    using assms(1,2) by (subst greedy_loop.simps) (simp add: b)
qed

text \<open>
  Over the window \<open>[0,24)\<close> with satellites \<open>[0,5)\<close> and \<open>[30,40)\<close>, in the round after the
  first satellite was selected: the second satellite starts after the window, and the
  recorded gap is \<open>[5,24)\<close>.
\<close>

theorem forced_selection_after_gap_witness:
  "(5::real) < 24 \<and> (1::nat) < length (std_sort (filterByRegion beyond_window ''All'')) \<and>
   5 < getStart (getInterval (std_sort (filterByRegion beyond_window ''All'') ! 1)) \<and>
   fst (greedy_body (std_sort (filterByRegion beyond_window ''All'')) 24
          ([std_sort (filterByRegion beyond_window ''All'') ! 0], [], 5, 1)) =
     ([std_sort (filterByRegion beyond_window ''All'') ! 0,
       std_sort (filterByRegion beyond_window ''All'') ! 1],
      [\<lparr>getStart = 5, getEnd = 24\<rparr>], 40, 2)"
proof -
  have h1: "(5::real) < 24" by simp
  have h2: "(1::nat) < length (std_sort (filterByRegion beyond_window ''All''))" by code_simp
  have h3: "5 < getStart (getInterval (std_sort (filterByRegion beyond_window ''All'') ! 1))"
    by code_simp
  have e: "getEnd (getInterval (std_sort (filterByRegion beyond_window ''All'') ! 1)) = 40"
    "getStart (getInterval (std_sort (filterByRegion beyond_window ''All'') ! 1)) = 30"
    by code_simp+
  from forced_selection_after_gap [OF h1 h2 h3] h1 h2 h3 e show ?thesis
    by simp
qed

text \<open>
  C4 as stated fails there: the first round leaves the state \<open>([Sat-A], [], 5, 1)\<close>, the
  gap recorded in the second round is not the one from \<open>currentEnd = 5\<close> to the start 30 of
  the next satellite, and \<open>findMinimumSatellites\<close> returns the single gap \<open>[5,24)\<close>.
\<close>

theorem forced_selection_gap_counterexample:
  "greedy_body (std_sort (filterByRegion beyond_window ''All'')) 24 ([], [], 0, 0) =
     (([std_sort (filterByRegion beyond_window ''All'') ! 0], [], 5, 1), False) \<and>
   fst (snd (fst (greedy_body (std_sort (filterByRegion beyond_window ''All'')) 24
        ([std_sort (filterByRegion beyond_window ''All'') ! 0], [], 5, 1)))) \<noteq>
     [\<lparr>getStart = 5,
        getEnd = getStart (getInterval (std_sort (filterByRegion beyond_window ''All'') ! 1))\<rparr>] \<and>
   snd (fst (findMinimumSatellites beyond_window ''All'')) = [\<lparr>getStart = 5, getEnd = 24\<rparr>]"
  by code_simp

text \<open>
  C5. \<open>findMinimumCostCoverage\<close> always returns, with the registry unchanged; its
  \<open>totalCost\<close> is the sum of the costs of the returned selection; and when \<open>parent[n]\<close> is
  undefined after the loops, where \<open>n\<close> is the size of the filtered list, the selection is
  empty and \<open>totalCost\<close> is 0.
\<close>

theorem reconstruction_starts_at_n:
  "\<exists>sel tc gs.
     findMinimumCostCoverage this region = Some ((sel, tc, gs), this) \<and>
     tc = sum_list (map getCost sel) \<and>
     (snd (dp_run (std_sort (filterByRegion this region)) (targetStart this))
        ! length (std_sort (filterByRegion this region)) = - 1 \<longrightarrow>
      sel = [] \<and> tc = 0)"
  using findMinimumCostCoverage_result [of this region]
  by (simp add: walk_stop_undefined)

text \<open>
  Over the window \<open>[0,24)\<close> with satellites \<open>[0,5)\<close> and \<open>[10,15)\<close>, \<open>parent[2]\<close> is undefined:
  the selection is empty at cost 0 and the whole window is reported as a gap, although
  \<open>[0,5)\<close> can be covered, as the greedy selection shows.
\<close>

theorem reconstruction_starts_at_n_witness:
  "snd (dp_run (std_sort (filterByRegion prefix_only ''All'')) (targetStart prefix_only))
     ! length (std_sort (filterByRegion prefix_only ''All'')) = - 1 \<and>
   findMinimumCostCoverage prefix_only ''All'' =
     Some (([], 0, [\<lparr>getStart = 0, getEnd = 24\<rparr>]), prefix_only) \<and>
   fst (fst (findMinimumSatellites prefix_only ''All'')) \<noteq> []"
proof -
  have h: "snd (dp_run (std_sort (filterByRegion prefix_only ''All'')) (targetStart prefix_only))
     ! length (std_sort (filterByRegion prefix_only ''All'')) = - 1"
    by code_simp
  have g: "map_option (\<lambda>r. snd (snd (fst r))) (findMinimumCostCoverage prefix_only ''All'') =
     Some [\<lparr>getStart = 0, getEnd = 24\<rparr>]"
    by code_simp
  have p: "fst (fst (findMinimumSatellites prefix_only ''All'')) \<noteq> []"
    by code_simp
  from reconstruction_starts_at_n [of prefix_only "''All''"] h g p show ?thesis
    by auto
qed

text \<open>
  C6. When the filtered list is empty (an empty registry, or a region that matches no
  satellite): if the window has \<open>targetStart < targetEnd\<close>, \<open>findMinimumSatellites\<close> returns
  an empty selection and the single gap from \<open>targetStart\<close> to \<open>targetEnd\<close>, and
  \<open>getCoverageSummary\<close> reports \<open>coveragePercentage = 0\<close>; if \<open>targetStart \<ge> targetEnd\<close>,
  \<open>findMinimumSatellites\<close> returns an empty selection and no gap.
\<close>

theorem empty_provider_list:
  assumes "filterByRegion this region = []"
  shows "(targetStart this < targetEnd this \<longrightarrow>
            fst (findMinimumSatellites this region) =
              ([], [\<lparr>getStart = targetStart this, getEnd = targetEnd this\<rparr>]) \<and>
            coveragePercentage (fst (getCoverageSummary this region)) = Some 0) \<and>
         (targetStart this \<ge> targetEnd this \<longrightarrow>
            fst (findMinimumSatellites this region) = ([], []))"
  by (simp add: findMinimumSatellites_empty [OF assms] getCoverageSummary_def)

text \<open>
  An empty registry over the default window, and a registry with one satellite of region
  \<open>Europe\<close> queried for \<open>Asia\<close> over the zero-width window from 5 to 5.
\<close>

theorem empty_provider_list_witness:
  "filterByRegion (Optimizer_ctor None None) ''All'' = [] \<and>
   targetStart (Optimizer_ctor None None) < targetEnd (Optimizer_ctor None None) \<and>
   fst (findMinimumSatellites (Optimizer_ctor None None) ''All'') =
     ([], [\<lparr>getStart = 0, getEnd = 24\<rparr>]) \<and>
   coveragePercentage (fst (getCoverageSummary (Optimizer_ctor None None) ''All'')) = Some 0 \<and>
   filterByRegion europe_only ''Asia'' = [] \<and>
   targetStart europe_only \<ge> targetEnd europe_only \<and>
   fst (findMinimumSatellites europe_only ''Asia'') = ([], [])"
proof -
  have h1: "filterByRegion (Optimizer_ctor None None) ''All'' = []" by code_simp
  have w1: "targetStart (Optimizer_ctor None None) = 0" "targetEnd (Optimizer_ctor None None) = 24"
    by (simp_all add: Optimizer_ctor_def)
  have h2: "filterByRegion europe_only ''Asia'' = []" by code_simp
  have w2: "targetStart europe_only = 5" "targetEnd europe_only = 5"
    by (simp_all add: europe_only_def addSatellite_def Optimizer_ctor_def)
  from empty_provider_list [OF h1] empty_provider_list [OF h2] h1 h2 w1 w2
  show ?thesis by simp
qed

text \<open>
  C7. Every gap interval returned by \<open>findMinimumSatellites\<close> or by
  \<open>findMinimumCostCoverage\<close> has its start strictly below its end, for every registry,
  region and target window; \<open>findMinimumCostCoverage\<close> always returns.
\<close>

theorem gaps_have_positive_length:
  "(\<forall>g \<in> set (snd (fst (findMinimumSatellites this region))). getStart g < getEnd g) \<and>
   (\<exists>sel tc gs. findMinimumCostCoverage this region = Some ((sel, tc, gs), this) \<and>
      (\<forall>g \<in> set gs. getStart g < getEnd g))"
proof
  let ?f = "std_sort (filterByRegion this region)"
  obtain sel gs currentEnd i where
    l: "greedy_loop ?f (targetEnd this) ([], [], targetStart this, 0) = (sel, gs, currentEnd, i)"
    by (metis prod_cases4)
  from greedy_loop_strict [of "([], [], targetStart this, 0)" ?f "targetEnd this"] l
  have "\<forall>g \<in> set gs. getStart g < getEnd g" by simp
  with l show "\<forall>g \<in> set (snd (fst (findMinimumSatellites this region))). getStart g < getEnd g"
    by (auto simp: findMinimumSatellites_def Let_def)
next
  show "\<exists>sel tc gs. findMinimumCostCoverage this region = Some ((sel, tc, gs), this) \<and>
      (\<forall>g \<in> set gs. getStart g < getEnd g)"
    using findMinimumCostCoverage_result [of this region] find_gaps_strict by blast
qed

theorem gaps_have_positive_length_witness:
  "\<lparr>getStart = 14, getEnd = 24\<rparr> \<in> set (snd (fst (findMinimumSatellites main_optimizer ''Asia''))) \<and>
   getStart \<lparr>getStart = 14, getEnd = 24\<rparr> < getEnd \<lparr>getStart = 14, getEnd = 24\<rparr> \<and>
   findMinimumCostCoverage main_optimizer ''Asia'' =
     Some (([Sat_Alpha, Sat_Eta, Sat_Gamma], 3900, [\<lparr>getStart = 14, getEnd = 24\<rparr>]), main_optimizer)"
proof -
  have g: "\<lparr>getStart = 14, getEnd = 24\<rparr> \<in> set (snd (fst (findMinimumSatellites main_optimizer ''Asia'')))"
    by code_simp
  have d: "findMinimumCostCoverage main_optimizer ''Asia'' =
     Some (([Sat_Alpha, Sat_Eta, Sat_Gamma], 3900, [\<lparr>getStart = 14, getEnd = 24\<rparr>]), main_optimizer)"
    by code_simp
  from gaps_have_positive_length [of main_optimizer "''Asia''"] g d show ?thesis
    by auto
qed

text \<open>
  C8. Each query returns the object it was called on unchanged, so the registry and the
  window are the same after the call, and a second call of the same query on the object
  left by the first returns the same result; \<open>findMinimumCostCoverage\<close> always returns.
\<close>

theorem queries_are_repeatable:
  "snd (findMinimumSatellites this region) = this \<and>
   fst (findMinimumSatellites (snd (findMinimumSatellites this region)) region) =
     fst (findMinimumSatellites this region) \<and>
   snd (getCoverageSummary this region) = this \<and>
   fst (getCoverageSummary (snd (getCoverageSummary this region)) region) =
     fst (getCoverageSummary this region) \<and>
   (\<exists>r this1. findMinimumCostCoverage this region = Some (r, this1) \<and> this1 = this \<and>
      findMinimumCostCoverage this1 region = Some (r, this1))"
  using findMinimumCostCoverage_result [of this region]
  by (simp add: findMinimumSatellites_this getCoverageSummary_this)

text \<open>
  C9. After the loops of \<open>findMinimumCostCoverage\<close>, every defined \<open>parent[k]\<close> with
  \<open>k \<le> n\<close> is \<open>k - 1\<close>; the returned selection is the sorted filtered list without its
  first \<open>m\<close> elements for some \<open>m \<le> n\<close> (empty when \<open>m = n\<close>), and its starts are in
  non-decreasing order.
\<close>

theorem parent_is_predecessor:
  "(\<forall>k \<le> length (std_sort (filterByRegion this region)).
      snd (dp_run (std_sort (filterByRegion this region)) (targetStart this)) ! k \<noteq> - 1 \<longrightarrow>
      snd (dp_run (std_sort (filterByRegion this region)) (targetStart this)) ! k = int k - 1) \<and>
   (\<exists>m \<le> length (std_sort (filterByRegion this region)). \<exists>tc gs.
      findMinimumCostCoverage this region =
        Some ((drop m (std_sort (filterByRegion this region)), tc, gs), this) \<and>
      sorted (map (\<lambda>sat. getStart (getInterval sat))
                (drop m (std_sort (filterByRegion this region)))))"
proof
  let ?f = "std_sort (filterByRegion this region)"
  let ?p = "snd (dp_run ?f (targetStart this))"
  have ok: "parent_ok ?p" by (rule dp_run_parent_ok)
  have len: "length ?p = length ?f + 1" by (rule dp_run_length)
  show "\<forall>k \<le> length ?f. ?p ! k \<noteq> - 1 \<longrightarrow> ?p ! k = int k - 1"
  proof (intro allI impI)
    fix k
    assume "k \<le> length ?f" and d: "?p ! k \<noteq> - 1"
    with len have "k < length ?p" by simp
    with ok d show "?p ! k = int k - 1" unfolding parent_ok_def by blast
  qed
next
  let ?f = "std_sort (filterByRegion this region)"
  let ?m = "walk_stop (snd (dp_run ?f (targetStart this))) (length ?f)"
  have "sorted (drop ?m (map (\<lambda>sat. getStart (getInterval sat)) ?f))"
    using sorted_std_sort [of "filterByRegion this region"] by (rule sorted_wrt_drop)
  then have "sorted (map (\<lambda>sat. getStart (getInterval sat)) (drop ?m ?f))"
    by (simp only: drop_map)
  with findMinimumCostCoverage_result [of this region] walk_stop_le [of _ "length ?f"]
  show "\<exists>m \<le> length ?f. \<exists>tc gs.
      findMinimumCostCoverage this region = Some ((drop m ?f, tc, gs), this) \<and>
      sorted (map (\<lambda>sat. getStart (getInterval sat)) (drop m ?f))"
    by blast
qed

theorem parent_is_predecessor_witness:
  "(2::nat) \<le> length (std_sort (filterByRegion main_optimizer ''Asia'')) \<and>
   snd (dp_run (std_sort (filterByRegion main_optimizer ''Asia'')) (targetStart main_optimizer)) ! 2 \<noteq> - 1 \<and>
   snd (dp_run (std_sort (filterByRegion main_optimizer ''Asia'')) (targetStart main_optimizer)) ! 2 = int 2 - 1"
proof -
  have l: "(2::nat) \<le> length (std_sort (filterByRegion main_optimizer ''Asia''))"
    by code_simp
  have d: "snd (dp_run (std_sort (filterByRegion main_optimizer ''Asia'')) (targetStart main_optimizer)) ! 2 \<noteq> - 1"
    by code_simp
  from parent_is_predecessor [of main_optimizer "''Asia''"] l d show ?thesis
    by blast
qed

text \<open>
  C10. \<open>addSatellite\<close> without a cost stores cost 1 and without a region stores region
  \<open>Global\<close>; an optimizer constructed without arguments has the window from 0 to 24 (and
  no satellites); \<open>addSatellite\<close> appends exactly one satellite, built from its arguments,
  whatever they are, and leaves the window alone.
\<close>

theorem addSatellite_defaults_and_append:
  "addSatellite this name s e None None =
     this\<lparr>satellites := satellites this @
       [\<lparr>getName = name, getInterval = \<lparr>getStart = s, getEnd = e\<rparr>,
         getCost = 1, getRegion = ''Global''\<rparr>]\<rparr> \<and>
   getCost (last (satellites (addSatellite this name s e None r))) = 1 \<and>
   getRegion (last (satellites (addSatellite this name s e c None))) = ''Global'' \<and>
   targetStart (Optimizer_ctor None None) = 0 \<and>
   targetEnd (Optimizer_ctor None None) = 24 \<and>
   satellites (Optimizer_ctor None None) = [] \<and>
   satellites (addSatellite this name s e c r) =
     satellites this @
       [\<lparr>getName = name, getInterval = \<lparr>getStart = s, getEnd = e\<rparr>,
         getCost = (case c of None \<Rightarrow> 1 | Some c' \<Rightarrow> c'),
         getRegion = (case r of None \<Rightarrow> ''Global'' | Some r' \<Rightarrow> r')\<rparr>] \<and>
   length (satellites (addSatellite this name s e c r)) = length (satellites this) + 1 \<and>
   targetStart (addSatellite this name s e c r) = targetStart this \<and>
   targetEnd (addSatellite this name s e c r) = targetEnd this"
  by (simp add: addSatellite_def Optimizer_ctor_def Satellite_ctor_def Let_def)

end
